theory Spec2Isabelle
  imports Complex_Main "HOL-Library.Multiset"
begin

section \<open>Numbers\<close>

text \<open>
  The TypeScript type \<open>number\<close> is modelled as \<open>real\<close>. In the functions of the next
  sections its arithmetic is exact; the functions whose claims depend on the rounding of
  IEEE doubles are restated with that rounding in the section on double precision.
  \<open>NaN\<close>, the infinities and the sign of zero are outside the model. \<open>Math.floor\<close> is
  \<open>\<lfloor>_\<rfloor>\<close>, \<open>Math.round\<close> (nearest integer, a half going up) is \<open>round\<close>, and the
  operator \<open>%\<close> is the truncating remainder \<open>remainder\<close> below: its result takes the sign
  of the dividend, and it is exact on doubles too.
\<close>

definition trunc :: "real \<Rightarrow> int" where
  "trunc x = (if 0 \<le> x then \<lfloor>x\<rfloor> else \<lceil>x\<rceil>)"

definition remainder :: "real \<Rightarrow> real \<Rightarrow> real" where
  "remainder n d = n - d * of_int (trunc (n / d))"

text \<open>\<open>Math.atan2(y, x)\<close>: the angle of the point \<open>(x, y)\<close> in \<open>(-\<pi>, \<pi>]\<close>.\<close>

definition atan2 :: "real \<Rightarrow> real \<Rightarrow> real" where
  "atan2 y x =
     (if 0 < x then arctan (y / x)
      else if x < 0 \<and> 0 \<le> y then arctan (y / x) + pi
      else if x < 0 then arctan (y / x) - pi
      else if 0 < y then pi / 2
      else if y < 0 then - (pi / 2)
      else 0)"

section \<open>Data model\<close>

record Coordinate =
  latitude :: real
  longitude :: real

record HorizonPoint =
  relativeDirection :: real
  elevationAngleDegrees :: real
  distance_km :: real

record RawHorizonPoint =
  direction :: real
  elevationAngleDegrees :: real
  distance_km :: real

record Viewpoint =
  angle :: real
  viewpoint :: Coordinate
  bearingToPeak :: real
  horizon :: "HorizonPoint list"

text \<open>
  Both bounds of a \<open>DirectionRange\<close> are results of \<open>Math.floor\<close>, so they are kept as
  integers and embedded into \<open>number\<close> where they are passed on. The field \<open>end\<close> of the
  source is \<open>end'\<close> here.
\<close>

record DirectionRange =
  start :: int
  end' :: int

record ElevationData =
  calculateHorizon :: "real \<Rightarrow> real \<Rightarrow> real \<Rightarrow> real \<Rightarrow> RawHorizonPoint list"

definition PEAK :: Coordinate where
  "PEAK = \<lparr>latitude = 40.3908, longitude = - 111.6458\<rparr>"

definition DISTANCE_KM :: real where
  "DISTANCE_KM = 8.919"

definition EARTH_RADIUS_KM :: real where
  "EARTH_RADIUS_KM = 6371"

definition HALF_FOV_DEGREES :: real where
  "HALF_FOV_DEGREES = 45"

section \<open>Geodesy primitives\<close>

definition toRadians :: "real \<Rightarrow> real" where
  "toRadians degrees = (degrees * pi) / 180"

definition toDegrees :: "real \<Rightarrow> real" where
  "toDegrees radians = (radians * 180) / pi"

definition normalizeAngle :: "real \<Rightarrow> real" where
  "normalizeAngle angle' = remainder (remainder angle' 360 + 360) 360"

definition normalizeRelativeDirection :: "real \<Rightarrow> real" where
  "normalizeRelativeDirection direction' =
     (if direction' > 180 then direction' - 360
      else if direction' < - 180 then direction' + 360
      else direction')"

definition calculateDestinationPoint :: "Coordinate \<Rightarrow> real \<Rightarrow> real \<Rightarrow> Coordinate" where
  "calculateDestinationPoint origin distanceKm bearingDegrees =
     (let angularDistance = distanceKm / EARTH_RADIUS_KM;
          bearingRadians = toRadians bearingDegrees;
          originLatitudeRadians = toRadians (latitude origin);
          originLongitudeRadians = toRadians (longitude origin);
          destinationLatitudeRadians =
            arcsin (sin originLatitudeRadians * cos angularDistance +
                    cos originLatitudeRadians * sin angularDistance * cos bearingRadians);
          destinationLongitudeRadians =
            originLongitudeRadians +
            atan2 (sin bearingRadians * sin angularDistance * cos originLatitudeRadians)
                  (cos angularDistance -
                   sin originLatitudeRadians * sin destinationLatitudeRadians)
      in \<lparr>latitude = toDegrees destinationLatitudeRadians,
          longitude = toDegrees destinationLongitudeRadians\<rparr>)"

definition calculateBearing :: "Coordinate \<Rightarrow> Coordinate \<Rightarrow> real" where
  "calculateBearing from to =
     (let deltaLongitudeRadians = toRadians (longitude to - longitude from);
          fromLatitudeRadians = toRadians (latitude from);
          toLatitudeRadians = toRadians (latitude to);
          eastwardComponent = sin deltaLongitudeRadians * cos toLatitudeRadians;
          northwardComponent =
            cos fromLatitudeRadians * sin toLatitudeRadians -
            sin fromLatitudeRadians * cos toLatitudeRadians * cos deltaLongitudeRadians
      in normalizeAngle (toDegrees (atan2 eastwardComponent northwardComponent)))"

section \<open>Direction range and relative directions\<close>

definition calculateDirectionRange :: "real \<Rightarrow> DirectionRange" where
  "calculateDirectionRange bearingToPeak' =
     \<lparr>start = \<lfloor>normalizeAngle (bearingToPeak' - HALF_FOV_DEGREES)\<rfloor>,
      end' = \<lfloor>normalizeAngle (bearingToPeak' + HALF_FOV_DEGREES)\<rfloor>\<rparr>"

definition transformToRelativeDirection :: "RawHorizonPoint \<Rightarrow> real \<Rightarrow> HorizonPoint" where
  "transformToRelativeDirection point bearingToPeak' =
     \<lparr>relativeDirection =
        normalizeRelativeDirection (direction point - of_int (round bearingToPeak')),
      elevationAngleDegrees = RawHorizonPoint.elevationAngleDegrees point,
      distance_km = RawHorizonPoint.distance_km point\<rparr>"

section \<open>Horizon of one viewpoint\<close>

text \<open>
  The elevation handle is an external collaborator. Its method \<open>calculateHorizon\<close> is a
  function of its four arguments that returns normally; every call of it is recorded, in
  order, in a list of the queries issued so far, which the functions calling it pass on.
\<close>

type_synonym HorizonQuery = "real \<times> real \<times> real \<times> real"

definition queryHorizon ::
  "ElevationData \<Rightarrow> real \<Rightarrow> real \<Rightarrow> real \<Rightarrow> real \<Rightarrow> HorizonQuery list
     \<Rightarrow> RawHorizonPoint list \<times> HorizonQuery list" where
  "queryHorizon elevation lat lon startDir endDir issued =
     (calculateHorizon elevation lat lon startDir endDir,
      issued @ [(lat, lon, startDir, endDir)])"

definition rangeWrapsAroundNorth :: "DirectionRange \<Rightarrow> bool" where
  "rangeWrapsAroundNorth range' \<longleftrightarrow> start range' > end' range'"

text \<open>
  \<open>Array.prototype.sort\<close> with the comparator \<open>a.relativeDirection - b.relativeDirection\<close>
  is a stable sort by that key: \<open>sort_key\<close>.
\<close>

definition calculateHorizonForViewpoint ::
  "ElevationData \<Rightarrow> Coordinate \<Rightarrow> real \<Rightarrow> HorizonQuery list
     \<Rightarrow> HorizonPoint list \<times> HorizonQuery list" where
  "calculateHorizonForViewpoint elevation viewpoint' bearingToPeak' issued =
     (let range' = calculateDirectionRange bearingToPeak';
          (rawPoints, issued') =
            (if rangeWrapsAroundNorth range' then
               (let (upper, issued1) =
                      queryHorizon elevation (latitude viewpoint') (longitude viewpoint')
                        (of_int (start range')) 359 issued;
                    (lower, issued2) =
                      queryHorizon elevation (latitude viewpoint') (longitude viewpoint')
                        0 (of_int (end' range')) issued1
                in (upper @ lower, issued2))
             else
               queryHorizon elevation (latitude viewpoint') (longitude viewpoint')
                 (of_int (start range')) (of_int (end' range')) issued)
      in (sort_key relativeDirection
            (map (\<lambda>point. transformToRelativeDirection point bearingToPeak') rawPoints),
          issued'))"

definition generateViewpoint ::
  "ElevationData \<Rightarrow> real \<Rightarrow> HorizonQuery list \<Rightarrow> Viewpoint \<times> HorizonQuery list" where
  "generateViewpoint elevation angle' issued =
     (let viewpoint' = calculateDestinationPoint PEAK DISTANCE_KM angle';
          bearingToPeak' = calculateBearing viewpoint' PEAK;
          (horizon', issued') =
            calculateHorizonForViewpoint elevation viewpoint' bearingToPeak' issued
      in (\<lparr>angle = angle', viewpoint = viewpoint', bearingToPeak = bearingToPeak',
           horizon = horizon'\<rparr>,
          issued'))"


text \<open>
  A collaborator that answers an inclusive integer range with one sample per degree of
  the range (in any order).
\<close>

definition oneSamplePerDegree :: "ElevationData \<Rightarrow> bool" where
  "oneSamplePerDegree elevation \<longleftrightarrow>
     (\<forall>lat lon (s::int) (t::int).
        mset (map direction (calculateHorizon elevation lat lon (of_int s) (of_int t))) =
        mset (map of_int [s..t]))"

text \<open>The handle that returns, for every degree of a range, a sample at distance zero.\<close>

definition flatTerrain :: ElevationData where
  "flatTerrain =
     \<lparr>calculateHorizon = (\<lambda>lat lon startDir endDir.
        map (\<lambda>d. \<lparr>direction = of_int d, elevationAngleDegrees = 0, distance_km = 0\<rparr>)
          [\<lfloor>startDir\<rfloor>..\<lfloor>endDir\<rfloor>])\<rparr>"

section \<open>The dataset and its single-flight cache\<close>

text \<open>
  The loop \<open>for (let angle = 0; angle < 360; angle++) viewpoints.push(...)\<close> of the
  asynchronous block, from the value of \<open>angle\<close> reached. What the code writes to
  the console is not part of the model.
\<close>

function generateLoop ::
  "ElevationData \<Rightarrow> nat \<Rightarrow> Viewpoint list \<Rightarrow> HorizonQuery list
     \<Rightarrow> Viewpoint list \<times> HorizonQuery list" where
  "generateLoop elevation angle' viewpoints issued =
     (if angle' < 360 then
        (let (v, issued') = generateViewpoint elevation (real angle') issued
         in generateLoop elevation (angle' + 1) (viewpoints @ [v]) issued')
      else (viewpoints, issued))"
  by pat_completeness auto
termination
  by (relation "measure (\<lambda>(elevation, angle', viewpoints, issued). 360 - angle')") auto

text \<open>
  \<open>JSON.stringify\<close> followed by \<open>gzipSync\<close> is a library function from the viewpoints to
  a buffer of type \<open>'buf\<close>; it is the parameter \<open>gzipOfJson\<close>.
\<close>

definition compressToGzip :: "(Viewpoint list \<Rightarrow> 'buf) \<Rightarrow> Viewpoint list \<Rightarrow> 'buf" where
  "compressToGzip gzipOfJson viewpoints = gzipOfJson viewpoints"

text \<open>
  A promise is pending, fulfilled with a buffer, or rejected with a reason. The promises
  created by the asynchronous block live in a heap (a list) and are referred to by their
  index there.
\<close>

type_synonym Reason = string

datatype 'buf PromiseState = Pending | Fulfilled 'buf | Rejected Reason

text \<open>
  What a call of \<open>generateAllViewpoints\<close> returned: the cached buffer itself, or the
  generation promise.
\<close>

datatype 'buf Returned = Value 'buf | Ref nat

text \<open>
  The module state: the two module variables, the promise heap, and three histories
  that the code does not store: how often \<open>loadElevationData\<close> was called, how often
  the 360 viewpoints were generated, and what each call returned (oldest first).
\<close>

record 'buf Module =
  cachedGzip :: "'buf option"
  generationPromise :: "nat option"
  promises :: "'buf PromiseState list"
  loadCalls :: nat
  buildRuns :: nat
  returned :: "'buf Returned list"

definition initial :: "'buf Module" where
  "initial =
     \<lparr>cachedGzip = None, generationPromise = None, promises = [],
      loadCalls = 0, buildRuns = 0, returned = []\<rparr>"

text \<open>
  JavaScript runs each of the following to completion before anything else runs. A call
  of \<open>generateAllViewpoints\<close> runs up to its \<open>return\<close>; when it starts the asynchronous
  block, the block runs up to \<open>await loadElevationData(TIF_PATH)\<close>, so the load has been
  called when the call returns.
\<close>

definition generateAllViewpoints :: "'buf Module \<Rightarrow> 'buf Module" where
  "generateAllViewpoints m =
     (case cachedGzip m of
        Some gzipped \<Rightarrow> m\<lparr>returned := returned m @ [Value gzipped]\<rparr>
      | None \<Rightarrow>
         (case generationPromise m of
            Some p \<Rightarrow> m\<lparr>returned := returned m @ [Ref p]\<rparr>
          | None \<Rightarrow>
             (let p = length (promises m)
              in m\<lparr>generationPromise := Some p,
                   promises := promises m @ [Pending],
                   loadCalls := loadCalls m + 1,
                   returned := returned m @ [Ref p]\<rparr>)))"

text \<open>
  The rest of the asynchronous block of promise \<open>p\<close>, run when its load has resolved with
  a handle: generate, compress, store the buffer, fulfil the promise. The queries of the
  handle, \<open>JSON.stringify\<close> and \<open>gzipSync\<close> are external code and can throw: \<open>thrown\<close>
  is the reason one of them throws in this run of the block, if any. A throw leaves the
  block before \<open>cachedGzip\<close> is assigned, and the block's promise is rejected with the
  reason.
\<close>

definition loadResolved ::
  "(Viewpoint list \<Rightarrow> 'buf) \<Rightarrow> nat \<Rightarrow> ElevationData \<Rightarrow> Reason option \<Rightarrow> 'buf Module
     \<Rightarrow> 'buf Module" where
  "loadResolved gzipOfJson p elevation thrown m =
     (case thrown of
        Some reason \<Rightarrow>
          m\<lparr>promises := (promises m)[p := Rejected reason],
            buildRuns := buildRuns m + 1\<rparr>
      | None \<Rightarrow>
         (let viewpoints = fst (generateLoop elevation 0 [] []);
              gzipped = compressToGzip gzipOfJson viewpoints
          in m\<lparr>cachedGzip := Some gzipped,
               promises := (promises m)[p := Fulfilled gzipped],
               buildRuns := buildRuns m + 1\<rparr>))"

text \<open>When the load rejects, the \<open>await\<close> throws and the block's promise is rejected.\<close>

definition loadRejected :: "nat \<Rightarrow> Reason \<Rightarrow> 'buf Module \<Rightarrow> 'buf Module" where
  "loadRejected p reason m = m\<lparr>promises := (promises m)[p := Rejected reason]\<rparr>"

text \<open>
  The events of a process lifetime: a call of \<open>generateAllViewpoints\<close>; the load of
  block \<open>p\<close> resolves with a handle, and the rest of the block runs to its end or to a
  throw; the load of block \<open>p\<close> rejects. A load settles only for a block that is waiting
  for it, that is, whose promise is pending; otherwise the event cannot happen and
  changes nothing.
\<close>

datatype Event =
  Call
| LoadResolves nat ElevationData "Reason option"
| LoadRejects nat Reason

definition awaitingLoad :: "'buf Module \<Rightarrow> nat \<Rightarrow> bool" where
  "awaitingLoad m p \<longleftrightarrow> p < length (promises m) \<and> promises m ! p = Pending"

fun step :: "(Viewpoint list \<Rightarrow> 'buf) \<Rightarrow> 'buf Module \<Rightarrow> Event \<Rightarrow> 'buf Module" where
  "step gzipOfJson m Call = generateAllViewpoints m"
| "step gzipOfJson m (LoadResolves p elevation thrown) =
     (if awaitingLoad m p then loadResolved gzipOfJson p elevation thrown m else m)"
| "step gzipOfJson m (LoadRejects p reason) =
     (if awaitingLoad m p then loadRejected p reason m else m)"

definition run :: "(Viewpoint list \<Rightarrow> 'buf) \<Rightarrow> 'buf Module \<Rightarrow> Event list \<Rightarrow> 'buf Module" where
  "run gzipOfJson m events = foldl (step gzipOfJson) m events"

text \<open>
  What the caller that was handed \<open>r\<close> has observed in state \<open>m\<close>: nothing yet, a
  failure, or a buffer.
\<close>

definition outcome :: "'buf Module \<Rightarrow> 'buf Returned \<Rightarrow> (Reason + 'buf) option" where
  "outcome m r =
     (case r of
        Value gzipped \<Rightarrow> Some (Inr gzipped)
      | Ref p \<Rightarrow>
         (if p < length (promises m) then
            (case promises m ! p of
               Pending \<Rightarrow> None
             | Fulfilled gzipped \<Rightarrow> Some (Inr gzipped)
             | Rejected reason \<Rightarrow> Some (Inl reason))
          else None))"

declare generateLoop.simps [simp del]

section \<open>The states of the cache\<close>

text \<open>
  The states the module can be in, used to state what every run preserves: nothing
  started, one generation in flight, the buffer ready, or the generation failed (with
  the reason, and whether the failure came after the load, in the build).
  \<open>canonical\<close> gives the module variables of each state, \<open>handedOut\<close> what calls can
  have returned by then, and \<open>nextState\<close> the effect of an event.
\<close>

datatype 'buf CacheState = Empty | InFlight | Ready 'buf | Failed Reason bool

fun canonical :: "'buf CacheState \<Rightarrow> 'buf Returned list \<Rightarrow> 'buf Module" where
  "canonical Empty rs =
     \<lparr>cachedGzip = None, generationPromise = None, promises = [],
      loadCalls = 0, buildRuns = 0, returned = rs\<rparr>"
| "canonical InFlight rs =
     \<lparr>cachedGzip = None, generationPromise = Some 0, promises = [Pending],
      loadCalls = 1, buildRuns = 0, returned = rs\<rparr>"
| "canonical (Ready gzipped) rs =
     \<lparr>cachedGzip = Some gzipped, generationPromise = Some 0, promises = [Fulfilled gzipped],
      loadCalls = 1, buildRuns = 1, returned = rs\<rparr>"
| "canonical (Failed reason built) rs =
     \<lparr>cachedGzip = None, generationPromise = Some 0, promises = [Rejected reason],
      loadCalls = 1, buildRuns = (if built then 1 else 0), returned = rs\<rparr>"

fun handedOut :: "'buf CacheState \<Rightarrow> 'buf Returned \<Rightarrow> bool" where
  "handedOut Empty r = False"
| "handedOut InFlight r = (r = Ref 0)"
| "handedOut (Ready gzipped) r = (r = Ref 0 \<or> r = Value gzipped)"
| "handedOut (Failed reason built) r = (r = Ref 0)"

fun nextState :: "(Viewpoint list \<Rightarrow> 'buf) \<Rightarrow> 'buf CacheState \<Rightarrow> Event \<Rightarrow> 'buf CacheState" where
  "nextState gz Empty Call = InFlight"
| "nextState gz InFlight (LoadResolves p elevation thrown) =
     (if p = 0 then
        (case thrown of
           Some reason \<Rightarrow> Failed reason True
         | None \<Rightarrow> Ready (compressToGzip gz (fst (generateLoop elevation 0 [] []))))
      else InFlight)"
| "nextState gz InFlight (LoadRejects p reason) =
     (if p = 0 then Failed reason False else InFlight)"
| "nextState gz st ev = st"

definition inState :: "'buf Module \<Rightarrow> 'buf CacheState \<Rightarrow> bool" where
  "inState m st \<longleftrightarrow> m = canonical st (returned m) \<and> list_all (handedOut st) (returned m)"

text \<open>
  A run in which the load fails and \<open>generateAllViewpoints\<close> is called again, and one
  in which the build throws after the load and \<open>generateAllViewpoints\<close> is called
  again; the buffer type is the list of viewpoints itself.
\<close>

definition retryAfterFailure :: "(Viewpoint list) Module" where
  "retryAfterFailure = run id initial [Call, LoadRejects 0 ''ENOENT'', Call]"

definition retryAfterThrow :: "(Viewpoint list) Module" where
  "retryAfterThrow =
     run id initial [Call, LoadResolves 0 flatTerrain (Some ''EQUERY''), Call]"

section \<open>The same functions in double precision\<close>

text \<open>
  Above, \<open>number\<close> is an exact real. The code computes in IEEE 754 doubles: the result of
  an addition or subtraction is rounded to the nearest double, ties going to the double
  whose last mantissa bit is even. \<open>%\<close>, \<open>Math.floor\<close> and the comparisons are exact on
  doubles. The functions whose claims depend on that rounding are restated here with it:
  every \<open>+\<close> and \<open>-\<close> of the source is followed by \<open>roundToDouble\<close>. Overflow to an
  infinity is outside the model. The code passes doubles to these functions, that is,
  reals that \<open>roundToDouble\<close> leaves unchanged; what is proved of every real argument
  holds of them.

  \<open>binade x\<close> is the exponent \<open>e\<close> with \<open>2 ^ e \<le> |x| < 2 ^ (e + 1)\<close>, not below that of the
  subnormal doubles; \<open>ulp x\<close> is the distance between neighbouring doubles (53 bits of
  mantissa) in that binade.
\<close>

definition pow2 :: "int \<Rightarrow> real" where
  "pow2 e = (if 0 \<le> e then 2 ^ nat e else 1 / 2 ^ nat (- e))"

definition binade :: "real \<Rightarrow> int" where
  "binade x = max \<lfloor>log 2 \<bar>x\<bar>\<rfloor> (- 1022)"

definition ulp :: "real \<Rightarrow> real" where
  "ulp x = pow2 (binade x - 52)"

definition roundTiesToEven :: "real \<Rightarrow> int" where
  "roundTiesToEven y =
     (if y - of_int \<lfloor>y\<rfloor> < 1 / 2 then \<lfloor>y\<rfloor>
      else if y - of_int \<lfloor>y\<rfloor> > 1 / 2 then \<lfloor>y\<rfloor> + 1
      else if even \<lfloor>y\<rfloor> then \<lfloor>y\<rfloor>
      else \<lfloor>y\<rfloor> + 1)"

definition roundToDouble :: "real \<Rightarrow> real" where
  "roundToDouble x = (if x = 0 then 0 else ulp x * of_int (roundTiesToEven (x / ulp x)))"

definition normalizeAngle64 :: "real \<Rightarrow> real" where
  "normalizeAngle64 angle' = remainder (roundToDouble (remainder angle' 360 + 360)) 360"

definition normalizeRelativeDirection64 :: "real \<Rightarrow> real" where
  "normalizeRelativeDirection64 direction' =
     (if direction' > 180 then roundToDouble (direction' - 360)
      else if direction' < - 180 then roundToDouble (direction' + 360)
      else direction')"


text \<open>The size of the inputs at which the rounding is shown.\<close>

definition tiny :: real where
  "tiny = 1 / 2 ^ 44"

section \<open>Angle normalization\<close>

lemma floor_unique_360:
  fixes r x :: real
  assumes "0 \<le> r" "r < 360" "x = r + 360 * of_int k"
  shows "\<lfloor>x / 360\<rfloor> = k"
proof -
  have "x / 360 = r / 360 + of_int k" using assms(3) by simp
  moreover have "0 \<le> r / 360" "r / 360 < 1" using assms by simp_all
  ultimately show ?thesis by (simp add: floor_unique)
qed

lemma normalizeAngle_floor: "normalizeAngle x = x - 360 * of_int \<lfloor>x / 360\<rfloor>"
proof (cases "0 \<le> x")
  case True
  define r where "r = x - 360 * of_int \<lfloor>x / 360\<rfloor>"
  have r: "0 \<le> r" "r < 360"
    unfolding r_def
    using of_int_floor_le[of "x / 360"] real_of_int_floor_add_one_gt[of "x / 360"]
    by linarith+
  have 1: "remainder x 360 = r" using True by (simp add: remainder_def trunc_def r_def)
  have "\<lfloor>(r + 360) / 360\<rfloor> = 1"
    by (rule floor_unique_360[of r]) (use r in simp_all)
  then have "remainder (r + 360) 360 = r"
    using r by (simp add: remainder_def trunc_def)
  then show ?thesis by (simp add: normalizeAngle_def 1 r_def)
next
  case False
  define r where "r = x - 360 * of_int \<lceil>x / 360\<rceil>"
  have r: "- 360 < r" "r \<le> 0"
    unfolding r_def
    using le_of_int_ceiling[of "x / 360"] of_int_ceiling_le_add_one[of "x / 360"] False
      ceiling_correct[of "x / 360"]
    by linarith+
  have 1: "remainder x 360 = r" using False by (simp add: remainder_def trunc_def r_def)
  show ?thesis
  proof (cases "r = 0")
    case True
    then have "x = 0 + 360 * of_int \<lceil>x / 360\<rceil>" by (simp add: r_def)
    then have "\<lfloor>x / 360\<rfloor> = \<lceil>x / 360\<rceil>" by (rule floor_unique_360[rotated 2]) simp_all
    moreover have "remainder (0 + 360) 360 = 0" by (simp add: remainder_def trunc_def)
    ultimately show ?thesis using True by (simp add: normalizeAngle_def 1 r_def)
  next
    case F: False
    have "x = (r + 360) + 360 * of_int (\<lceil>x / 360\<rceil> - 1)" by (simp add: r_def)
    then have fl: "\<lfloor>x / 360\<rfloor> = \<lceil>x / 360\<rceil> - 1"
      by (rule floor_unique_360[rotated 2]) (use r F in simp_all)
    have "\<lfloor>(r + 360) / 360\<rfloor> = 0"
      by (rule floor_unique_360[of "r + 360"]) (use r F in simp_all)
    then have "remainder (r + 360) 360 = r + 360"
      using r by (simp add: remainder_def trunc_def)
    then show ?thesis by (simp add: normalizeAngle_def 1 fl) (simp add: r_def)
  qed
qed

lemma normalizeAngle_bounds: "0 \<le> normalizeAngle x" "normalizeAngle x < 360"
  unfolding normalizeAngle_floor
  using of_int_floor_le[of "x / 360"] real_of_int_floor_add_one_gt[of "x / 360"]
  by linarith+

lemma normalizeAngle_fixed:
  assumes "0 \<le> x" "x < 360"
  shows "normalizeAngle x = x"
proof -
  have "\<lfloor>x / 360\<rfloor> = 0"
    by (rule floor_unique_360[of x]) (use assms in simp_all)
  then show ?thesis by (simp add: normalizeAngle_floor)
qed

lemma normalizeAngle_shift: "normalizeAngle (x + 360 * of_int k) = normalizeAngle x"
proof -
  have "(x + 360 * of_int k) / 360 = x / 360 + of_int k"
    by (simp add: add_divide_distrib)
  then have "\<lfloor>(x + 360 * of_int k) / 360\<rfloor> = \<lfloor>x / 360\<rfloor> + k"
    by (simp only: floor_add_int)
  then show ?thesis by (simp add: normalizeAngle_floor algebra_simps)
qed

lemma floor_normalizeAngle: "\<lfloor>normalizeAngle x\<rfloor> = \<lfloor>x\<rfloor> mod 360"
proof -
  have "\<lfloor>x / 360\<rfloor> = \<lfloor>x\<rfloor> div 360"
    using floor_divide_real_eq_div[of 360 x] by simp
  moreover have "\<lfloor>x - 360 * of_int k\<rfloor> = \<lfloor>x\<rfloor> - 360 * k" for k
  proof -
    have "x - 360 * of_int k = x - of_int (360 * k)" by simp
    then show ?thesis by (simp only: floor_diff_of_int)
  qed
  ultimately show ?thesis
    by (simp add: normalizeAngle_floor minus_mult_div_eq_mod)
qed

lemma calculateDirectionRange_mod:
  "calculateDirectionRange b =
     \<lparr>start = (\<lfloor>b\<rfloor> - 45) mod 360, end' = (\<lfloor>b\<rfloor> + 45) mod 360\<rparr>"
proof -
  have "\<lfloor>b - 45\<rfloor> = \<lfloor>b\<rfloor> - 45" "\<lfloor>b + 45\<rfloor> = \<lfloor>b\<rfloor> + 45"
    by linarith+
  then show ?thesis
    by (simp add: calculateDirectionRange_def HALF_FOV_DEGREES_def floor_normalizeAngle)
qed

lemma window_cases:
  fixes n :: int
  defines "s \<equiv> (n - 45) mod 360" and "t \<equiv> (n + 45) mod 360"
  shows "0 \<le> s" "s \<le> 359" "0 \<le> t" "t \<le> 359"
    "(s \<le> 269 \<and> t = s + 90) \<or> (270 \<le> s \<and> t = s - 270)"
proof -
  have s: "0 \<le> s" "s < 360" by (simp_all add: s_def)
  have t: "0 \<le> t" "t < 360" by (simp_all add: t_def)
  show "0 \<le> s" "s \<le> 359" "0 \<le> t" "t \<le> 359" using s t by simp_all
  have "n + 45 = n - 45 + 90" by simp
  then have "t = (n - 45 + 90) mod 360" by (simp only: t_def)
  also have "\<dots> = (s + 90) mod 360"
    unfolding s_def by (simp only: mod_add_left_eq)
  finally have ts: "t = (s + 90) mod 360" .
  show "(s \<le> 269 \<and> t = s + 90) \<or> (270 \<le> s \<and> t = s - 270)"
  proof (cases "s \<le> 269")
    case True
    then have "(s + 90) mod 360 = s + 90" using s by (intro mod_pos_pos_trivial) simp_all
    with True ts show ?thesis by simp
  next
    case False
    have "s + 90 = s - 270 + 360" by simp
    then have "(s + 90) mod 360 = (s - 270 + 360) mod 360" by (simp only:)
    also have "\<dots> = (s - 270) mod 360" by (simp only: mod_add_self2)
    also have "\<dots> = s - 270" using False s by (intro mod_pos_pos_trivial) simp_all
    finally show ?thesis using False ts by simp
  qed
qed

lemma normalizeAngle_of_int: "normalizeAngle (of_int n) = of_int (n mod 360)"
proof -
  have "\<lfloor>real_of_int n / 360\<rfloor> = n div 360"
    using floor_divide_real_eq_div[of 360 "of_int n"] by simp
  then have "normalizeAngle (of_int n) = of_int (n - 360 * (n div 360))"
    by (simp add: normalizeAngle_floor)
  then show ?thesis by (simp only: minus_mult_div_eq_mod)
qed

lemma normalizeRelativeDirection_range_iff:
  "(- 180 \<le> normalizeRelativeDirection x \<and> normalizeRelativeDirection x \<le> 180) \<longleftrightarrow>
   (- 540 \<le> x \<and> x \<le> 540)"
  by (auto simp: normalizeRelativeDirection_def)

text \<open>
  Claim C7, as the code has it. \<open>normalizeAngle\<close> lands in \<open>[0, 360)\<close> for every real
  input, negative ones included, and on an integer \<open>n\<close> it is \<open>n mod 360\<close>. \<open>normalizeRelativeDirection\<close> shifts by one turn at
  most, so its result lies in \<open>[-180, 180]\<close> exactly for the inputs in \<open>[-540, 540]\<close>;
  these include every difference of a compass degree and a rounded bearing.
\<close>
theorem normalization_ranges:
  "0 \<le> normalizeAngle x \<and> normalizeAngle x < 360 \<and>
   normalizeAngle (of_int n) = of_int (n mod 360) \<and>
   ((- 180 \<le> normalizeRelativeDirection y \<and> normalizeRelativeDirection y \<le> 180) \<longleftrightarrow>
    (- 540 \<le> y \<and> y \<le> 540))"
  using normalizeAngle_bounds[of x] normalizeAngle_of_int[of n]
    normalizeRelativeDirection_range_iff[of y]
  by simp

text \<open>
  The range \<open>[-180, 180]\<close> does not hold for every real input: \<open>541\<close> is sent to \<open>181\<close>.
\<close>
theorem normalization_ranges_counterexample:
  "\<not> (- 180 \<le> normalizeRelativeDirection 541 \<and> normalizeRelativeDirection 541 \<le> 180)"
  by (simp add: normalizeRelativeDirection_def)

text \<open>Both parts at concrete inputs.\<close>
theorem normalization_ranges_witness:
  "normalizeAngle (- 45) = 315 \<and> normalizeRelativeDirection 270 = - 90 \<and>
   normalizeRelativeDirection 541 = 181"
  using normalization_ranges[of "-45" "-45" 270]
  by (simp add: normalizeRelativeDirection_def)

text \<open>
  Claim C5. For every real bearing, \<open>calculateDirectionRange\<close> returns the floors of
  the normalized bearing minus and plus 45; bearing 0 gives 315 to 45, which wraps
  around north, and bearing 90 gives 45 to 135, which does not.
\<close>
theorem direction_range_planner: "calculateDirectionRange b =
     \<lparr>start = \<lfloor>normalizeAngle (b - 45)\<rfloor>, end' = \<lfloor>normalizeAngle (b + 45)\<rfloor>\<rparr> \<and>
   calculateDirectionRange 0 = \<lparr>start = 315, end' = 45\<rparr> \<and>
   rangeWrapsAroundNorth (calculateDirectionRange 0) \<and>
   calculateDirectionRange 90 = \<lparr>start = 45, end' = 135\<rparr> \<and>
   \<not> rangeWrapsAroundNorth (calculateDirectionRange 90)"
proof -
  have "calculateDirectionRange b =
     \<lparr>start = \<lfloor>normalizeAngle (b - 45)\<rfloor>, end' = \<lfloor>normalizeAngle (b + 45)\<rfloor>\<rparr>"
    by (simp add: calculateDirectionRange_def HALF_FOV_DEGREES_def)
  moreover have "calculateDirectionRange 0 = \<lparr>start = 315, end' = 45\<rparr>"
    by (simp add: calculateDirectionRange_mod)
  moreover have "calculateDirectionRange 90 = \<lparr>start = 45, end' = 135\<rparr>"
    by (simp add: calculateDirectionRange_mod)
  ultimately show ?thesis by (simp add: rangeWrapsAroundNorth_def)
qed

lemma calculateHorizonForViewpoint_unfold:
  "calculateHorizonForViewpoint elevation v b issued =
     (let r = calculateDirectionRange b; la = latitude v; lo = longitude v
      in if start r \<le> end' r then
           (sort_key relativeDirection
              (map (\<lambda>point. transformToRelativeDirection point b)
                 (calculateHorizon elevation la lo (of_int (start r)) (of_int (end' r)))),
            issued @ [(la, lo, of_int (start r), of_int (end' r))])
         else
           (sort_key relativeDirection
              (map (\<lambda>point. transformToRelativeDirection point b)
                 (calculateHorizon elevation la lo (of_int (start r)) 359 @
                  calculateHorizon elevation la lo 0 (of_int (end' r)))),
            issued @ [(la, lo, of_int (start r), 359), (la, lo, 0, of_int (end' r))]))"
  by (simp add: calculateHorizonForViewpoint_def rangeWrapsAroundNorth_def queryHorizon_def
      Let_def)

section \<open>The horizon of a viewpoint\<close>

lemma range_bounds:
  "0 \<le> start (calculateDirectionRange b)" "start (calculateDirectionRange b) \<le> 359"
  "0 \<le> end' (calculateDirectionRange b)" "end' (calculateDirectionRange b) \<le> 359"
  using window_cases(1-4)[of "\<lfloor>b\<rfloor>"] by (simp_all add: calculateDirectionRange_mod)


text \<open>
  Claim C3. For every bearing, \<open>calculateHorizonForViewpoint\<close> adds to the queries
  issued exactly one query over \<open>[start, end]\<close> when \<open>start \<le> end\<close>, and exactly the two
  queries \<open>[start, 359]\<close> and \<open>[0, end]\<close>, in that order, when \<open>start > end\<close>; the raw
  points are the answer, respectively the first answer followed by the second. In the
  wrapping case the query \<open>[start, end]\<close> is not among the queries added.
\<close>
theorem wraparound_split:
  "calculateHorizonForViewpoint elevation v b issued =
     (let r = calculateDirectionRange b; la = latitude v; lo = longitude v
      in if start r \<le> end' r then
           (sort_key relativeDirection
              (map (\<lambda>point. transformToRelativeDirection point b)
                 (calculateHorizon elevation la lo (of_int (start r)) (of_int (end' r)))),
            issued @ [(la, lo, of_int (start r), of_int (end' r))])
         else
           (sort_key relativeDirection
              (map (\<lambda>point. transformToRelativeDirection point b)
                 (calculateHorizon elevation la lo (of_int (start r)) 359 @
                  calculateHorizon elevation la lo 0 (of_int (end' r)))),
            issued @ [(la, lo, of_int (start r), 359), (la, lo, 0, of_int (end' r))])) \<and>
   (rangeWrapsAroundNorth (calculateDirectionRange b) \<longrightarrow>
      (latitude v, longitude v, of_int (start (calculateDirectionRange b)),
       of_int (end' (calculateDirectionRange b)))
      \<notin> set (drop (length issued) (snd (calculateHorizonForViewpoint elevation v b issued))))"
proof -
  have "start (calculateDirectionRange b) \<noteq> 0" "end' (calculateDirectionRange b) \<noteq> 359"
    if "rangeWrapsAroundNorth (calculateDirectionRange b)"
    using that range_bounds[of b] by (simp_all add: rangeWrapsAroundNorth_def)
  then show ?thesis
    by (auto simp: calculateHorizonForViewpoint_unfold Let_def rangeWrapsAroundNorth_def)
qed

lemma flat_0: "calculateDirectionRange 0 = \<lparr>start = 315, end' = 45\<rparr>"
  by (simp add: calculateDirectionRange_mod)

lemma flat_90: "calculateDirectionRange 90 = \<lparr>start = 45, end' = 135\<rparr>"
  by (simp add: calculateDirectionRange_mod)

text \<open>The queries issued from the peak for bearing 0 (wrapping) and bearing 90.\<close>
theorem wraparound_split_witness:
  "rangeWrapsAroundNorth (calculateDirectionRange 0) \<and>
   snd (calculateHorizonForViewpoint flatTerrain PEAK 0 []) =
     [(40.3908, - 111.6458, 315, 359), (40.3908, - 111.6458, 0, 45)] \<and>
   \<not> rangeWrapsAroundNorth (calculateDirectionRange 90) \<and>
   snd (calculateHorizonForViewpoint flatTerrain PEAK 90 []) =
     [(40.3908, - 111.6458, 45, 135)]"
  by (simp add: wraparound_split[THEN conjunct1] Let_def flat_0 flat_90 PEAK_def
      rangeWrapsAroundNorth_def)

text \<open>
  Claim C4. Each raw sample is turned into a sample whose relative direction is the
  normalized difference of its direction and the bearing rounded to the nearest
  integer, with elevation angle and distance unchanged; the horizon returned consists
  of exactly the transformed raw samples and is sorted ascending by relative direction.
\<close>
theorem horizon_transformer:
  "transformToRelativeDirection point b =
     \<lparr>relativeDirection = normalizeRelativeDirection (direction point - of_int (round b)),
      elevationAngleDegrees = RawHorizonPoint.elevationAngleDegrees point,
      distance_km = RawHorizonPoint.distance_km point\<rparr> \<and>
   (let r = calculateDirectionRange b;
        rawPoints =
          (if rangeWrapsAroundNorth r then
             calculateHorizon elevation (latitude v) (longitude v) (of_int (start r)) 359 @
             calculateHorizon elevation (latitude v) (longitude v) 0 (of_int (end' r))
           else
             calculateHorizon elevation (latitude v) (longitude v)
               (of_int (start r)) (of_int (end' r)));
        horizon' = fst (calculateHorizonForViewpoint elevation v b issued)
    in mset horizon' =
         image_mset (\<lambda>point. transformToRelativeDirection point b) (mset rawPoints) \<and>
       sorted (map relativeDirection horizon'))"
  by (simp add: transformToRelativeDirection_def calculateHorizonForViewpoint_unfold Let_def
      rangeWrapsAroundNorth_def)

lemma relative_inj:
  fixes d1 d2 m :: int
  assumes "0 \<le> d1" "d1 \<le> 359" "0 \<le> d2" "d2 \<le> 359"
    and "normalizeRelativeDirection (of_int d1 - of_int m) =
         normalizeRelativeDirection (of_int d2 - of_int m)"
  shows "d1 = d2"
proof -
  have "real_of_int d1 - real_of_int d2 \<in> {0, 360, - 360, 720, - 720}"
    using assms(5) by (auto simp: normalizeRelativeDirection_def split: if_splits)
  then have "real_of_int (d1 - d2) \<in> {0, 360, - 360, 720, - 720}" by simp
  then have "d1 - d2 \<in> {0, 360, - 360, 720, - 720}"
    by (auto simp del: of_int_diff)
  with assms(1-4) show ?thesis by auto
qed

lemma distinct_relative:
  assumes "distinct ds" "set ds \<subseteq> {0..359}"
  shows "distinct (map (\<lambda>d. normalizeRelativeDirection (of_int d - of_int m)) ds)"
proof -
  have "inj_on (\<lambda>d. normalizeRelativeDirection (of_int d - of_int m)) (set ds)"
    using assms(2) by (intro inj_onI relative_inj[of _ _ m]) auto
  with assms(1) show ?thesis by (simp add: distinct_map)
qed

lemma relative_of_raw:
  assumes "mset (map direction raw) = mset (map of_int ds)"
  shows "mset (map relativeDirection (map (\<lambda>point. transformToRelativeDirection point b) raw)) =
         mset (map (\<lambda>d. normalizeRelativeDirection (of_int d - of_int (round b))) ds)"
proof -
  have "map relativeDirection (map (\<lambda>point. transformToRelativeDirection point b) raw) =
        map (\<lambda>x. normalizeRelativeDirection (x - of_int (round b))) (map direction raw)"
    by (simp add: transformToRelativeDirection_def comp_def)
  also have "mset \<dots> =
      image_mset (\<lambda>x. normalizeRelativeDirection (x - of_int (round b)))
        (mset (map direction raw))"
    by (simp only: mset_map)
  also have "\<dots> = image_mset (\<lambda>x. normalizeRelativeDirection (x - of_int (round b)))
        (mset (map of_int ds))"
    by (simp only: assms)
  also have "\<dots> = mset (map (\<lambda>d. normalizeRelativeDirection (of_int d - of_int (round b))) ds)"
    by (simp add: comp_def multiset.map_comp)
  finally show ?thesis .
qed

lemma strict_of_raw:
  assumes "mset (map direction raw) = mset (map of_int ds)" "distinct ds" "set ds \<subseteq> {0..359}"
  shows "sorted_wrt (<) (map relativeDirection
           (sort_key relativeDirection
              (map (\<lambda>point. transformToRelativeDirection point b) raw)))"
proof -
  let ?xs = "map (\<lambda>point. transformToRelativeDirection point b) raw"
  have "mset (map relativeDirection (sort_key relativeDirection ?xs)) =
        mset (map relativeDirection ?xs)"
    by (simp only: mset_map mset_sort)
  also have "\<dots> = mset (map (\<lambda>d. normalizeRelativeDirection (of_int d - of_int (round b))) ds)"
    by (rule relative_of_raw[OF assms(1)])
  finally have "distinct (map relativeDirection (sort_key relativeDirection ?xs))"
    using distinct_relative[OF assms(2,3)] mset_eq_imp_distinct_iff by blast
  then show ?thesis by (simp add: strict_sorted_iff)
qed

lemma horizon_strict:
  assumes "oneSamplePerDegree elevation"
  shows "sorted_wrt (<) (map relativeDirection
           (fst (calculateHorizonForViewpoint elevation v b issued)))"
proof -
  define r where "r = calculateDirectionRange b"
  have bounds: "0 \<le> start r" "start r \<le> 359" "0 \<le> end' r" "end' r \<le> 359"
    using range_bounds[of b] by (simp_all add: r_def)
  have one: "mset (map direction (calculateHorizon elevation la lo (of_int s) (of_int t))) =
             mset (map of_int [s..t])" for la lo s t
    using assms by (simp add: oneSamplePerDegree_def)
  show ?thesis
  proof (cases "start r \<le> end' r")
    case True
    have "sorted_wrt (<) (map relativeDirection
           (sort_key relativeDirection
              (map (\<lambda>point. transformToRelativeDirection point b)
                 (calculateHorizon elevation (latitude v) (longitude v)
                    (of_int (start r)) (of_int (end' r))))))"
      by (rule strict_of_raw[OF one]) (use bounds in auto)
    with True show ?thesis
      by (simp add: calculateHorizonForViewpoint_unfold Let_def flip: r_def)
  next
    case False
    have "mset (map direction
            (calculateHorizon elevation (latitude v) (longitude v) (of_int (start r)) 359 @
             calculateHorizon elevation (latitude v) (longitude v) 0 (of_int (end' r)))) =
          mset (map of_int ([start r..359] @ [0..end' r]))"
      using one[of "latitude v" "longitude v" "start r" 359]
        one[of "latitude v" "longitude v" 0 "end' r"]
      by simp
    then have "sorted_wrt (<) (map relativeDirection
           (sort_key relativeDirection
              (map (\<lambda>point. transformToRelativeDirection point b)
                 (calculateHorizon elevation (latitude v) (longitude v) (of_int (start r)) 359 @
                  calculateHorizon elevation (latitude v) (longitude v) 0 (of_int (end' r))))))"
      by (rule strict_of_raw) (use bounds False in auto)
    with False show ?thesis
      by (simp add: calculateHorizonForViewpoint_unfold Let_def flip: r_def)
  qed
qed

lemma generateViewpoint_horizon:
  "horizon (fst (generateViewpoint elevation a issued)) =
   fst (calculateHorizonForViewpoint elevation
          (calculateDestinationPoint PEAK DISTANCE_KM a)
          (calculateBearing (calculateDestinationPoint PEAK DISTANCE_KM a) PEAK) issued)"
  by (simp add: generateViewpoint_def Let_def split: prod.split)

text \<open>
  Claim C6. If the collaborator answers every inclusive integer range with one sample
  per degree, the horizon of every bearing, and so of every viewpoint generated, is
  strictly ascending in relative direction: sorted, and no direction twice.
\<close>
theorem horizon_strictly_ascending:
  assumes "oneSamplePerDegree elevation"
  shows "sorted_wrt (<) (map relativeDirection
           (fst (calculateHorizonForViewpoint elevation v b issued))) \<and>
         sorted_wrt (<) (map relativeDirection
           (horizon (fst (generateViewpoint elevation a issued))))"
  using horizon_strict[OF assms] by (simp add: generateViewpoint_horizon)

lemma oneSamplePerDegree_flatTerrain: "oneSamplePerDegree flatTerrain"
  by (simp add: oneSamplePerDegree_def flatTerrain_def comp_def)

text \<open>The flat terrain is such a collaborator.\<close>
theorem horizon_strictly_ascending_witness:
  "oneSamplePerDegree flatTerrain \<and>
   sorted_wrt (<) (map relativeDirection
     (fst (calculateHorizonForViewpoint flatTerrain PEAK 0 []))) \<and>
   sorted_wrt (<) (map relativeDirection
     (horizon (fst (generateViewpoint flatTerrain 0 []))))"
  using horizon_strictly_ascending[OF oneSamplePerDegree_flatTerrain, of PEAK 0 "[]" 0]
  by (simp add: oneSamplePerDegree_flatTerrain)

lemma horizon_independent_of_issued:
  "fst (calculateHorizonForViewpoint elevation v b issued) =
   fst (calculateHorizonForViewpoint elevation v b issued')"
  by (simp add: calculateHorizonForViewpoint_unfold Let_def)

lemma generateViewpoint_fst:
  "fst (generateViewpoint elevation a issued) =
     \<lparr>angle = a,
      viewpoint = calculateDestinationPoint PEAK DISTANCE_KM a,
      bearingToPeak = calculateBearing (calculateDestinationPoint PEAK DISTANCE_KM a) PEAK,
      horizon =
        fst (calculateHorizonForViewpoint elevation
               (calculateDestinationPoint PEAK DISTANCE_KM a)
               (calculateBearing (calculateDestinationPoint PEAK DISTANCE_KM a) PEAK)
               issued)\<rparr>"
  by (simp add: generateViewpoint_def Let_def split_beta)

lemma viewpoint_independent_of_issued:
  "fst (generateViewpoint elevation a issued) = fst (generateViewpoint elevation a issued')"
  by (simp only: generateViewpoint_fst
      horizon_independent_of_issued[of elevation _ _ issued issued'])

text \<open>
  Claim C9. Two calls of \<open>generateViewpoint\<close> with the same handle and angle, the second
  one made after the first has issued its queries, return the same viewpoint: the same
  angle, location, bearing and horizon.
\<close>
theorem generateViewpoint_deterministic:
  "(let (first, issued1) = generateViewpoint elevation a issued;
        (second, issued2) = generateViewpoint elevation a issued1
    in first = second \<and> angle first = a \<and>
       viewpoint first = viewpoint second \<and> bearingToPeak first = bearingToPeak second \<and>
       horizon first = horizon second)"
  using viewpoint_independent_of_issued[of elevation a issued
      "snd (generateViewpoint elevation a issued)"]
  by (simp add: split_beta Let_def) (simp add: generateViewpoint_fst)


section \<open>The single-flight cache\<close>

lemma handedOut_mono:
  "handedOut st r \<Longrightarrow> handedOut (nextState gz st ev) r"
  by (cases st; cases ev) (auto split: option.split)

lemma step_inState:
  assumes "inState m st"
  shows "inState (step gz m ev) (nextState gz st ev)"
proof -
  obtain rs where m: "m = canonical st rs" and rs: "list_all (handedOut st) rs"
    using assms by (auto simp: inState_def)
  have keep: "list_all (handedOut (nextState gz st ev)) rs"
    using rs by (auto simp: list_all_iff intro: handedOut_mono)
  show ?thesis
  proof (cases ev)
    case Call
    then show ?thesis using rs keep
      by (cases st) (auto simp: m inState_def generateAllViewpoints_def Let_def)
  next
    case (LoadResolves p elevation thrown)
    then show ?thesis using keep
      by (cases st; cases thrown)
        (auto simp: m inState_def awaitingLoad_def loadResolved_def Let_def)
  next
    case (LoadRejects p reason)
    then show ?thesis using keep
      by (cases st)
        (auto simp: m inState_def awaitingLoad_def loadRejected_def Let_def)
  qed
qed

lemma run_inState:
  "inState m st \<Longrightarrow> inState (run gz m events) (foldl (nextState gz) st events)"
  unfolding run_def
  by (induction events arbitrary: m st) (auto intro: step_inState)

lemma initial_inState: "inState initial Empty"
  by (simp add: inState_def initial_def)

lemma reachable_inState:
  "inState (run gz initial events) (foldl (nextState gz) Empty events)"
  by (rule run_inState[OF initial_inState])

lemma inState_Ready_outcome:
  assumes "inState m (Ready g)" "r \<in> set (returned m)"
  shows "outcome m r = Some (Inr g)"
proof -
  have "promises m = [Fulfilled g]" "handedOut (Ready g) r"
    using assms by (auto simp: inState_def list_all_iff) (metis canonical.simps(3) Module.select_convs(3))
  then show ?thesis by (auto simp: outcome_def)
qed

lemma inState_Failed_outcome:
  assumes "inState m (Failed reason built)" "r \<in> set (returned m)"
  shows "outcome m r = Some (Inl reason)"
proof -
  have "promises m = [Rejected reason]" "handedOut (Failed reason built) r"
    using assms by (auto simp: inState_def list_all_iff) (metis canonical.simps(4) Module.select_convs(3))
  then show ?thesis by (auto simp: outcome_def)
qed

lemma inState_InFlight_outcome:
  assumes "inState m InFlight" "r \<in> set (returned m)"
  shows "outcome m r = None"
proof -
  have "promises m = [Pending]" "handedOut InFlight r"
    using assms by (auto simp: inState_def list_all_iff) (metis canonical.simps(2) Module.select_convs(3))
  then show ?thesis by (auto simp: outcome_def)
qed

lemma inState_Empty_returned:
  assumes "inState m Empty"
  shows "returned m = []"
  using assms by (cases "returned m") (auto simp: inState_def)

lemma inState_fields:
  assumes "inState m st"
  shows "cachedGzip m = cachedGzip (canonical st [])"
    "generationPromise m = generationPromise (canonical st [])"
    "promises m = promises (canonical st [])"
    "loadCalls m = loadCalls (canonical st [])"
    "buildRuns m = buildRuns (canonical st [])"
proof -
  have "m = canonical st (returned m)" using assms by (simp add: inState_def)
  then have "m = (canonical st [])\<lparr>returned := returned m\<rparr>"
    by (cases st) simp_all
  then obtain rs where "m = (canonical st [])\<lparr>returned := rs\<rparr>" ..
  then show "cachedGzip m = cachedGzip (canonical st [])"
    "generationPromise m = generationPromise (canonical st [])"
    "promises m = promises (canonical st [])"
    "loadCalls m = loadCalls (canonical st [])"
    "buildRuns m = buildRuns (canonical st [])"
    by simp_all
qed

text \<open>
  Claim C1. After any sequence of calls and load settlements, \<open>loadElevationData\<close> has
  been called at most once and the 360 viewpoints have been generated at most once; any
  two callers that have received a buffer have received the same one, and once the
  buffer is cached every caller, earlier or later, has received it.
\<close>
theorem single_flight:
  "(let m = run gz initial events
    in loadCalls m \<le> 1 \<and> buildRuns m \<le> 1 \<and>
       (\<forall>r1 \<in> set (returned m). \<forall>r2 \<in> set (returned m). \<forall>g1 g2.
          outcome m r1 = Some (Inr g1) \<longrightarrow> outcome m r2 = Some (Inr g2) \<longrightarrow> g1 = g2) \<and>
       (\<forall>g. cachedGzip m = Some g \<longrightarrow>
          (\<forall>r \<in> set (returned m). outcome m r = Some (Inr g))))"
proof -
  define m where "m = run gz initial events"
  define st where "st = foldl (nextState gz) Empty events"
  have inv: "inState m st"
    unfolding m_def st_def by (rule reachable_inState)
  have counts: "loadCalls m \<le> 1" "buildRuns m \<le> 1"
    using inState_fields(4,5)[OF inv] by (cases st; simp)+
  have same: "g1 = g2"
    if "r1 \<in> set (returned m)" "r2 \<in> set (returned m)"
      "outcome m r1 = Some (Inr g1)" "outcome m r2 = Some (Inr g2)" for r1 r2 g1 g2
  proof (cases st)
    case Empty
    with inv that show ?thesis using inState_Empty_returned by fastforce
  next
    case InFlight
    with inv that show ?thesis using inState_InFlight_outcome by fastforce
  next
    case (Ready g)
    with inv that show ?thesis using inState_Ready_outcome by fastforce
  next
    case (Failed reason built)
    with inv that show ?thesis using inState_Failed_outcome by fastforce
  qed
  have ready: "outcome m r = Some (Inr g)"
    if "cachedGzip m = Some g" "r \<in> set (returned m)" for g r
  proof -
    have "st = Ready g"
      using inState_fields(1)[OF inv] that(1) by (cases st) simp_all
    with inv that(2) show ?thesis using inState_Ready_outcome by fastforce
  qed
  show ?thesis
    unfolding Let_def m_def[symmetric] using counts same ready by blast
qed

lemma eval_run:
  "run gz m [] = m"
  "run gz m (ev # events) = run gz (step gz m ev) events"
  by (simp_all add: run_def)

text \<open>Two calls before the load resolves and one after it.\<close>
theorem single_flight_witness:
  "cachedGzip (run id initial [Call, Call, LoadResolves 0 flatTerrain None, Call]) =
     Some (fst (generateLoop flatTerrain 0 [] [])) \<and>
   loadCalls (run id initial [Call, Call, LoadResolves 0 flatTerrain None, Call]) = 1 \<and>
   buildRuns (run id initial [Call, Call, LoadResolves 0 flatTerrain None, Call]) = 1 \<and>
   returned (run id initial [Call, Call, LoadResolves 0 flatTerrain None, Call]) =
     [Ref 0, Ref 0, Value (fst (generateLoop flatTerrain 0 [] []))] \<and>
   map (outcome (run id initial [Call, Call, LoadResolves 0 flatTerrain None, Call]))
     (returned (run id initial [Call, Call, LoadResolves 0 flatTerrain None, Call])) =
     [Some (Inr (fst (generateLoop flatTerrain 0 [] []))),
      Some (Inr (fst (generateLoop flatTerrain 0 [] []))),
      Some (Inr (fst (generateLoop flatTerrain 0 [] [])))]"
  using single_flight[of id "[Call, Call, LoadResolves 0 flatTerrain None, Call]"]
  by (simp add: eval_run initial_def generateAllViewpoints_def awaitingLoad_def
      loadResolved_def compressToGzip_def outcome_def Let_def)

lemma run_append: "run gz m (xs @ ys) = run gz (run gz m xs) ys"
  by (simp add: run_def)

lemma Failed_stays:
  "foldl (nextState gz) (Failed reason built) events = Failed reason built"
  by (induction events) simp_all

text \<open>
  Claim C2, as the code has it. When the generation in flight fails, because its load
  rejects or because something throws in the build after the load, then after any
  further events the buffer is still not cached, \<open>generationPromise\<close> still holds the
  rejected promise, the load has been called once and never again, the build has run
  only if the failure came in it, and every caller, whether it called before or after
  the failure, has observed that failure.
\<close>
theorem failure_is_kept:
  assumes "awaitingLoad (run gz initial before) p"
    and "failure = LoadRejects p reason \<or> failure = LoadResolves p elevation (Some reason)"
  shows "(let m = run gz initial (before @ failure # after)
          in cachedGzip m = None \<and> generationPromise m = Some p \<and>
             promises m = [Rejected reason] \<and> loadCalls m = 1 \<and>
             buildRuns m = (if failure = LoadRejects p reason then 0 else 1) \<and>
             (\<forall>r \<in> set (returned m). outcome m r = Some (Inl reason)))"
proof -
  define m0 where "m0 = run gz initial before"
  define st0 where "st0 = foldl (nextState gz) Empty before"
  have inv0: "inState m0 st0"
    unfolding m0_def st0_def by (rule reachable_inState)
  have "p < length (promises m0)" "promises m0 ! p = Pending"
    using assms(1) by (simp_all add: awaitingLoad_def m0_def)
  then have st0: "st0 = InFlight" and p: "p = 0"
    using inState_fields(3)[OF inv0] by (cases st0; simp)+
  define built where "built \<longleftrightarrow> failure \<noteq> LoadRejects p reason"
  have next_st: "nextState gz InFlight failure = Failed reason built"
    using assms(2) by (auto simp: built_def p)
  define m where "m = run gz initial (before @ failure # after)"
  have "m = run gz m0 (failure # after)"
    by (simp add: m_def m0_def run_append)
  moreover have "inState (run gz m0 (failure # after))
      (foldl (nextState gz) st0 (failure # after))"
    by (rule run_inState[OF inv0])
  ultimately have inv: "inState m (Failed reason built)"
    by (simp add: st0 next_st Failed_stays)
  have "\<forall>r \<in> set (returned m). outcome m r = Some (Inl reason)"
    using inState_Failed_outcome[OF inv] by blast
  then show ?thesis
    unfolding Let_def m_def[symmetric] using inState_fields[OF inv] p
    by (simp add: built_def)
qed

text \<open>
  Two calls, the failure, and a third call: once with a load that rejects, once with a
  build that throws.
\<close>
theorem failure_is_kept_witness:
  "awaitingLoad (run id initial [Call, Call]) 0 \<and>
   generationPromise (run id initial ([Call, Call] @ LoadRejects 0 ''ENOENT'' # [Call])) =
     Some 0 \<and>
   loadCalls (run id initial ([Call, Call] @ LoadRejects 0 ''ENOENT'' # [Call])) = 1 \<and>
   buildRuns (run id initial ([Call, Call] @ LoadRejects 0 ''ENOENT'' # [Call])) = 0 \<and>
   returned (run id initial ([Call, Call] @ LoadRejects 0 ''ENOENT'' # [Call])) =
     [Ref 0, Ref 0, Ref 0] \<and>
   map (outcome (run id initial ([Call, Call] @ LoadRejects 0 ''ENOENT'' # [Call])))
     (returned (run id initial ([Call, Call] @ LoadRejects 0 ''ENOENT'' # [Call]))) =
     [Some (Inl ''ENOENT''), Some (Inl ''ENOENT''), Some (Inl ''ENOENT'')] \<and>
   cachedGzip
     (run id initial
        ([Call, Call] @ LoadResolves 0 flatTerrain (Some ''EQUERY'') # [Call])) = None \<and>
   loadCalls
     (run id initial
        ([Call, Call] @ LoadResolves 0 flatTerrain (Some ''EQUERY'') # [Call])) = 1 \<and>
   buildRuns
     (run id initial
        ([Call, Call] @ LoadResolves 0 flatTerrain (Some ''EQUERY'') # [Call])) = 1 \<and>
   map (outcome
          (run id initial
             ([Call, Call] @ LoadResolves 0 flatTerrain (Some ''EQUERY'') # [Call])))
     (returned
        (run id initial
           ([Call, Call] @ LoadResolves 0 flatTerrain (Some ''EQUERY'') # [Call]))) =
     [Some (Inl ''EQUERY''), Some (Inl ''EQUERY''), Some (Inl ''EQUERY'')]"
proof -
  have a: "awaitingLoad (run id initial [Call, Call]) 0"
    by (simp add: eval_run initial_def generateAllViewpoints_def awaitingLoad_def)
  show ?thesis
    using a
      failure_is_kept[OF a, of "LoadRejects 0 ''ENOENT''" "''ENOENT''" flatTerrain "[Call]"]
      failure_is_kept[OF a, of "LoadResolves 0 flatTerrain (Some ''EQUERY'')" "''EQUERY''"
        flatTerrain "[Call]"]
    by (simp add: eval_run initial_def generateAllViewpoints_def awaitingLoad_def
        loadRejected_def loadResolved_def outcome_def Let_def)
qed

text \<open>
  The module does not return to its empty state after a failure, and a later call starts
  no fresh attempt: it is handed the rejected promise. This is so after a load that
  rejects and after a build that throws.
\<close>
theorem failure_recovery_counterexample:
  "generationPromise retryAfterFailure \<noteq> None \<and>
   loadCalls retryAfterFailure = 1 \<and>
   returned retryAfterFailure = [Ref 0, Ref 0] \<and>
   outcome retryAfterFailure (Ref 0) = Some (Inl ''ENOENT'') \<and>
   generationPromise retryAfterThrow \<noteq> None \<and>
   cachedGzip retryAfterThrow = None \<and>
   loadCalls retryAfterThrow = 1 \<and>
   buildRuns retryAfterThrow = 1 \<and>
   returned retryAfterThrow = [Ref 0, Ref 0] \<and>
   outcome retryAfterThrow (Ref 0) = Some (Inl ''EQUERY'')"
  by (simp add: retryAfterFailure_def retryAfterThrow_def eval_run initial_def
      generateAllViewpoints_def awaitingLoad_def loadRejected_def loadResolved_def
      outcome_def Let_def)

section \<open>Rounding to doubles\<close>

lemma pow2_pos: "0 < pow2 e"
  by (simp add: pow2_def)

lemma pow2_powr: "pow2 e = 2 powr of_int e"
  by (simp add: pow2_def powr_real_of_int field_simps)

lemma roundTiesToEven_of_int: "roundTiesToEven (of_int n) = n"
  by (simp add: roundTiesToEven_def)

lemma roundTiesToEven_ge: "of_int n \<le> y \<Longrightarrow> n \<le> roundTiesToEven y"
proof -
  assume "of_int n \<le> y"
  then have "n \<le> \<lfloor>y\<rfloor>" by (simp add: le_floor_iff)
  then show ?thesis by (simp add: roundTiesToEven_def)
qed

lemma roundTiesToEven_le: "y \<le> of_int n \<Longrightarrow> roundTiesToEven y \<le> n"
proof -
  assume a: "y \<le> of_int n"
  show ?thesis
  proof (cases "y = of_int n")
    case True
    then show ?thesis by (simp add: roundTiesToEven_of_int)
  next
    case False
    with a have "y < of_int n" by simp
    then have "\<lfloor>y\<rfloor> < n" by (simp add: floor_less_iff)
    then have "\<lfloor>y\<rfloor> + 1 \<le> n" "\<lfloor>y\<rfloor> \<le> n" by simp_all
    then show ?thesis by (simp add: roundTiesToEven_def)
  qed
qed


lemma binade_less:
  assumes "\<bar>x\<bar> < 2 ^ n" "x \<noteq> 0"
  shows "binade x < int n"
proof -
  have "0 < \<bar>x\<bar>" using assms(2) by simp
  moreover have "\<bar>x\<bar> < 2 powr real n" using assms(1) by (simp add: powr_realpow)
  ultimately have "log 2 \<bar>x\<bar> < real n" by (simp add: log_less_iff)
  then have "\<lfloor>log 2 \<bar>x\<bar>\<rfloor> < int n" by (simp add: floor_less_iff)
  then show ?thesis by (simp add: binade_def)
qed

lemma binade_eq:
  assumes "pow2 e \<le> \<bar>x\<bar>" "\<bar>x\<bar> < pow2 (e + 1)" "- 1022 \<le> e"
  shows "binade x = e"
proof -
  have "0 < \<bar>x\<bar>" using assms(1) pow2_pos[of e] by linarith
  moreover have "2 powr of_int e \<le> \<bar>x\<bar>" "\<bar>x\<bar> < 2 powr (of_int e + 1)"
    using assms(1,2) by (simp_all add: pow2_powr)
  ultimately have "\<lfloor>log 2 \<bar>x\<bar>\<rfloor> = e"
    by (simp add: floor_log_eq_powr_iff)
  with assms(3) show ?thesis by (simp add: binade_def)
qed


text \<open>Below \<open>2 ^ n\<close> in size, with \<open>n \<le> 53\<close>, the unit in the last place is \<open>1 / 2 ^ j\<close> for some \<open>j \<ge> 53 - n\<close>.\<close>

lemma ulp_below:
  assumes "\<bar>x\<bar> < 2 ^ n" "x \<noteq> 0" "n \<le> 53"
  obtains j where "53 - n \<le> j" "ulp x = 1 / 2 ^ j"
proof -
  have b: "binade x < int n" by (rule binade_less[OF assms(1,2)])
  define j where "j = nat (52 - binade x)"
  have "53 - n \<le> j" using b assms(3) by (simp add: j_def)
  moreover have "ulp x = 1 / 2 ^ j"
  proof (cases "binade x = 52")
    case True
    then show ?thesis by (simp add: ulp_def pow2_def j_def)
  next
    case False
    then have "binade x - 52 < 0" using b assms(3) by simp
    moreover have "nat (- (binade x - 52)) = j" by (simp add: j_def)
    ultimately show ?thesis by (simp add: ulp_def pow2_def)
  qed
  ultimately show ?thesis by (rule that)
qed

text \<open>A multiple of \<open>1 / 2 ^ g\<close> below \<open>2 ^ n\<close> in size is a double when \<open>g + n \<le> 53\<close>.\<close>

lemma roundToDouble_exact:
  assumes "x = of_int k / 2 ^ g" "\<bar>x\<bar> < 2 ^ n" "g + n \<le> 53"
  shows "roundToDouble x = x"
proof (cases "x = 0")
  case True
  then show ?thesis by (simp add: roundToDouble_def)
next
  case False
  obtain j where j: "53 - n \<le> j" "ulp x = 1 / 2 ^ j"
    using ulp_below[OF assms(2) False] assms(3) by auto
  have gj: "g \<le> j" using j(1) assms(3) by simp
  have split: "(2::real) ^ j = 2 ^ (j - g) * 2 ^ g"
    using gj by (simp flip: power_add)
  have grid: "x = of_int (k * 2 ^ (j - g)) / 2 ^ j"
    unfolding assms(1) split by simp
  have "x / ulp x = x * 2 ^ j" by (simp add: j(2))
  also have "\<dots> = of_int (k * 2 ^ (j - g))"
    by (subst grid) simp
  finally have "roundTiesToEven (x / ulp x) = k * 2 ^ (j - g)"
    by (simp only: roundTiesToEven_of_int)
  then have "ulp x * of_int (roundTiesToEven (x / ulp x)) = of_int (k * 2 ^ (j - g)) / 2 ^ j"
    by (simp add: j(2))
  with grid have "ulp x * of_int (roundTiesToEven (x / ulp x)) = x" by simp
  then show ?thesis using False by (simp add: roundToDouble_def)
qed

text \<open>Rounding does not cross an integer (below \<open>2 ^ 53\<close> in size).\<close>

lemma roundToDouble_le:
  assumes "x \<le> of_int a" "\<bar>x\<bar> < 2 ^ 53"
  shows "roundToDouble x \<le> of_int a"
proof (cases "x = 0")
  case True
  then show ?thesis using assms(1) by (simp add: roundToDouble_def)
next
  case False
  obtain j where j: "ulp x = 1 / 2 ^ j"
    using ulp_below[OF assms(2) False] by auto
  have "x / ulp x \<le> of_int (a * 2 ^ j)"
    using assms(1) by (simp add: j)
  then have "roundTiesToEven (x / ulp x) \<le> a * 2 ^ j"
    by (rule roundTiesToEven_le)
  then have "real_of_int (roundTiesToEven (x / ulp x)) \<le> of_int (a * 2 ^ j)"
    by (simp only: of_int_le_iff)
  then have "ulp x * of_int (roundTiesToEven (x / ulp x)) \<le> of_int a"
    by (simp add: j field_simps)
  then show ?thesis using False by (simp add: roundToDouble_def)
qed

lemma roundToDouble_ge:
  assumes "of_int a \<le> x" "\<bar>x\<bar> < 2 ^ 53"
  shows "of_int a \<le> roundToDouble x"
proof (cases "x = 0")
  case True
  then show ?thesis using assms(1) by (simp add: roundToDouble_def)
next
  case False
  obtain j where j: "ulp x = 1 / 2 ^ j"
    using ulp_below[OF assms(2) False] by auto
  have "of_int (a * 2 ^ j) \<le> x / ulp x"
    using assms(1) by (simp add: j)
  then have "a * 2 ^ j \<le> roundTiesToEven (x / ulp x)"
    by (rule roundTiesToEven_ge)
  then have "real_of_int (a * 2 ^ j) \<le> of_int (roundTiesToEven (x / ulp x))"
    by (simp only: of_int_le_iff)
  then have "of_int a \<le> ulp x * of_int (roundTiesToEven (x / ulp x))"
    by (simp add: j field_simps)
  then show ?thesis using False by (simp add: roundToDouble_def)
qed

lemma remainder_360_range: "- 360 < remainder x 360" "remainder x 360 < 360"
proof -
  have "- 360 < remainder x 360 \<and> remainder x 360 < 360"
  proof (cases "0 \<le> x")
    case True
    then have "remainder x 360 = x - 360 * of_int \<lfloor>x / 360\<rfloor>"
      by (simp add: remainder_def trunc_def)
    then show ?thesis
      using of_int_floor_le[of "x / 360"] real_of_int_floor_add_one_gt[of "x / 360"]
      by linarith
  next
    case False
    then have "remainder x 360 = x - 360 * of_int \<lceil>x / 360\<rceil>"
      by (simp add: remainder_def trunc_def)
    then show ?thesis
      using le_of_int_ceiling[of "x / 360"] of_int_ceiling_le_add_one[of "x / 360"]
      by linarith
  qed
  then show "- 360 < remainder x 360" "remainder x 360 < 360" by simp_all
qed

lemma remainder_360_nonneg:
  assumes "0 \<le> x"
  shows "0 \<le> remainder x 360" "remainder x 360 < 360"
proof -
  have "remainder x 360 = x - 360 * of_int \<lfloor>x / 360\<rfloor>"
    using assms by (simp add: remainder_def trunc_def)
  then show "0 \<le> remainder x 360" "remainder x 360 < 360"
    using of_int_floor_le[of "x / 360"] real_of_int_floor_add_one_gt[of "x / 360"]
    by linarith+
qed

lemma normalizeAngle64_bounds: "0 \<le> normalizeAngle64 x" "normalizeAngle64 x < 360"
proof -
  define v where "v = remainder x 360 + 360"
  have v: "0 < v" "v < 720" using remainder_360_range[of x] by (simp_all add: v_def)
  then have "of_int 0 \<le> v" "\<bar>v\<bar> < 2 ^ 53" by simp_all
  then have "of_int 0 \<le> roundToDouble v" by (rule roundToDouble_ge)
  then have "0 \<le> roundToDouble v" by simp
  then show "0 \<le> normalizeAngle64 x" "normalizeAngle64 x < 360"
    using remainder_360_nonneg[of "roundToDouble v"]
    by (simp_all add: normalizeAngle64_def v_def)
qed

lemma relative_of_normalized64:
  "- 180 \<le> normalizeRelativeDirection64 (normalizeAngle64 x)"
  "normalizeRelativeDirection64 (normalizeAngle64 x) \<le> 180"
proof -
  define y where "y = normalizeAngle64 x"
  have y: "0 \<le> y" "y < 360" using normalizeAngle64_bounds[of x] by (simp_all add: y_def)
  have "- 180 \<le> normalizeRelativeDirection64 y \<and> normalizeRelativeDirection64 y \<le> 180"
  proof (cases "y > 180")
    case True
    have "of_int (- 180) \<le> y - 360" "y - 360 \<le> of_int 0" "\<bar>y - 360\<bar> < 2 ^ 53"
      using True y by simp_all
    then have "of_int (- 180) \<le> roundToDouble (y - 360)" "roundToDouble (y - 360) \<le> of_int 0"
      using roundToDouble_ge roundToDouble_le by blast+
    with True show ?thesis by (simp add: normalizeRelativeDirection64_def)
  next
    case False
    with y show ?thesis by (simp add: normalizeRelativeDirection64_def)
  qed
  then show "- 180 \<le> normalizeRelativeDirection64 (normalizeAngle64 x)"
    "normalizeRelativeDirection64 (normalizeAngle64 x) \<le> 180"
    by (simp_all add: y_def)
qed

lemma roundTiesToEven_half:
  "roundTiesToEven (of_int n + 1 / 2) = (if even n then n else n + 1)"
proof -
  have "\<lfloor>real_of_int n + 1 / 2\<rfloor> = n" by linarith
  then show ?thesis by (simp add: roundTiesToEven_def)
qed

lemma roundToDouble_binade:
  assumes "pow2 e \<le> \<bar>x\<bar>" "\<bar>x\<bar> < pow2 (e + 1)" "- 1022 \<le> e"
  shows "roundToDouble x = pow2 (e - 52) * of_int (roundTiesToEven (x / pow2 (e - 52)))"
proof -
  have "x \<noteq> 0" using assms(1) pow2_pos[of e] by auto
  then show ?thesis
    by (simp add: roundToDouble_def ulp_def binade_eq[OF assms])
qed

lemma remainder_360_small:
  assumes "\<bar>x\<bar> < 360"
  shows "remainder x 360 = x"
proof -
  have "- 1 < x / 360" "x / 360 < 1" using assms by simp_all
  then have "trunc (x / 360) = 0"
    by (auto simp: trunc_def floor_eq_iff ceiling_eq_iff)
  then show ?thesis by (simp add: remainder_def)
qed

lemma remainder_360_wrap:
  assumes "360 \<le> x" "x < 720"
  shows "remainder x 360 = x - 360"
proof -
  have "1 \<le> x / 360" "x / 360 < 2" using assms by simp_all
  then have "trunc (x / 360) = 1"
    by (auto simp: trunc_def floor_eq_iff)
  then show ?thesis by (simp add: remainder_def)
qed

lemma remainder_720: "remainder 720 360 = 0"
  by (simp add: remainder_def trunc_def)

lemma tie_720: "roundToDouble (720 - 1 / 2 ^ 44) = 720"
proof -
  have "roundToDouble (720 - 1 / 2 ^ 44) =
      pow2 (9 - 52) * of_int (roundTiesToEven ((720 - 1 / 2 ^ 44) / pow2 (9 - 52)))"
    by (rule roundToDouble_binade) (simp_all add: pow2_def)
  moreover have "(720 - 1 / 2 ^ 44) / pow2 (9 - 52) = of_int 6333186975989759 + 1 / 2"
    by (simp add: pow2_def)
  ultimately show ?thesis
    by (simp only: roundTiesToEven_half) (simp add: pow2_def)
qed


lemma tiny_bounds: "0 < tiny" "tiny < 1"
  by (simp_all add: tiny_def)

lemma exact_44:
  assumes "x = of_int k / 2 ^ 44" "\<bar>x\<bar> < 512"
  shows "roundToDouble x = x"
  by (rule roundToDouble_exact[of x k 44 9]) (use assms in simp_all)

lemma exact_below:
  fixes n :: int
  assumes "0 \<le> n" "n < 512"
  shows "roundToDouble (of_int n - tiny) = of_int n - tiny"
proof (rule exact_44[of _ "n * 2 ^ 44 - 1"])
  show "real_of_int n - tiny = of_int (n * 2 ^ 44 - 1) / 2 ^ 44"
    by (simp add: tiny_def field_simps)
  have "real_of_int n < 512" using assms(2) by simp
  then show "\<bar>real_of_int n - tiny\<bar> < 512"
    using tiny_bounds assms(1) by (simp add: abs_less_iff)
qed


lemma normalizeAngle64_tiny: "normalizeAngle64 (- tiny) = 360 - tiny"
proof -
  have r1: "remainder (- tiny) 360 = - tiny"
    by (rule remainder_360_small) (use tiny_bounds in simp)
  have r2: "- tiny + 360 = of_int 360 - tiny" by simp
  have r3: "roundToDouble (of_int 360 - tiny) = of_int 360 - tiny"
    by (rule exact_below) simp_all
  have r4: "remainder (of_int 360 - tiny) 360 = of_int 360 - tiny"
    by (rule remainder_360_small) (use tiny_bounds in simp)
  have "normalizeAngle64 (- tiny) = of_int 360 - tiny"
    unfolding normalizeAngle64_def r1 r2 r3 r4 ..
  then show ?thesis by simp
qed

lemma normalizeAngle64_below_360: "normalizeAngle64 (360 - tiny) = 0"
proof -
  have r1: "remainder (360 - tiny) 360 = 360 - tiny"
    by (rule remainder_360_small) (use tiny_bounds in simp)
  have r2: "360 - tiny + 360 = 720 - 1 / 2 ^ 44" by (simp add: tiny_def)
  show ?thesis
    unfolding normalizeAngle64_def r1 r2 tie_720 remainder_720 ..
qed

text \<open>
  In doubles \<open>normalizeAngle\<close> is neither idempotent nor periodic on every input: at the
  double \<open>- (1 / 2 ^ 44)\<close> it returns \<open>360 - 1 / 2 ^ 44\<close>, and on that, which is also the
  input plus 360, it returns 0, because \<open>720 - 1 / 2 ^ 44\<close> rounds to 720.
\<close>
theorem normalization_algebra_counterexample:
  "tiny = 1 / 2 ^ 44 \<and>
   roundToDouble (- tiny) = - tiny \<and>
   normalizeAngle64 (- tiny) = 360 - tiny \<and>
   normalizeAngle64 (normalizeAngle64 (- tiny)) = 0 \<and>
   normalizeAngle64 (normalizeAngle64 (- tiny)) \<noteq> normalizeAngle64 (- tiny) \<and>
   roundToDouble (- tiny + 360) = 360 - tiny \<and>
   normalizeAngle64 (roundToDouble (- tiny + 360)) = 0 \<and>
   normalizeAngle64 (roundToDouble (- tiny + 360)) \<noteq> normalizeAngle64 (- tiny)"
proof -
  have 1: "roundToDouble (- tiny) = - tiny"
    using exact_below[of 0] by simp
  have 2: "roundToDouble (- tiny + 360) = 360 - tiny"
    using exact_below[of 360] by simp
  have 3: "normalizeAngle64 (normalizeAngle64 (- tiny)) = 0"
    by (simp only: normalizeAngle64_tiny normalizeAngle64_below_360)
  have 4: "(0::real) \<noteq> 360 - tiny" using tiny_bounds by simp
  show ?thesis
    unfolding 3 2 1 normalizeAngle64_tiny normalizeAngle64_below_360
    using 4 by (simp add: tiny_def)
qed


section \<open>Normalization in doubles\<close>

lemma ulp_256_512:
  assumes "256 \<le> x" "x < 512"
  shows "ulp x = 1 / 2 ^ 44"
proof -
  have "binade x = 8"
    by (rule binade_eq) (use assms in \<open>simp_all add: pow2_def\<close>)
  then show ?thesis by (simp add: ulp_def pow2_def)
qed

lemma ulp_512_1024:
  assumes "512 \<le> x" "x < 1024"
  shows "ulp x = 1 / 2 ^ 43"
proof -
  have "binade x = 9"
    by (rule binade_eq) (use assms in \<open>simp_all add: pow2_def\<close>)
  then show ?thesis by (simp add: ulp_def pow2_def)
qed

lemma roundToDouble_mid_bounds:
  assumes "360 \<le> v" "v < 720"
  shows "360 \<le> roundToDouble v" "roundToDouble v \<le> 720"
proof -
  have "of_int 360 \<le> v" "v \<le> of_int 720" "\<bar>v\<bar> < 2 ^ 53" using assms by simp_all
  then have "of_int 360 \<le> roundToDouble v" "roundToDouble v \<le> of_int 720"
    using roundToDouble_ge roundToDouble_le by blast+
  then show "360 \<le> roundToDouble v" "roundToDouble v \<le> 720" by simp_all
qed

lemma roundToDouble_idem_mid:
  assumes "360 \<le> v" "v < 720"
  shows "roundToDouble (roundToDouble v) = roundToDouble v"
proof -
  define w where "w = roundToDouble v"
  have w: "360 \<le> w" "w \<le> 720"
    using roundToDouble_mid_bounds[OF assms] by (simp_all add: w_def)
  have v0: "v \<noteq> 0" using assms by simp
  show ?thesis
  proof (cases "v < 512")
    case True
    then have u: "ulp v = 1 / 2 ^ 44" using assms by (intro ulp_256_512) simp_all
    have wk: "w = of_int (roundTiesToEven (v / ulp v)) / 2 ^ 44"
      using v0 by (simp add: w_def roundToDouble_def u)
    have "of_int 512 \<ge> v" "\<bar>v\<bar> < 2 ^ 53" using True assms by simp_all
    then have "roundToDouble v \<le> of_int 512" by (rule roundToDouble_le)
    then have w512: "w \<le> 512" by (simp add: w_def)
    show ?thesis
    proof (cases "w = 512")
      case True
      have "roundToDouble 512 = 512"
        by (rule roundToDouble_exact[of 512 512 0 10]) simp_all
      with True show ?thesis by (simp add: w_def)
    next
      case False
      with w512 w have "\<bar>w\<bar> < 2 ^ 9" by simp
      then have "roundToDouble w = w"
        by (rule roundToDouble_exact[OF wk, of 9]) simp
      then show ?thesis by (simp add: w_def)
    qed
  next
    case False
    then have u: "ulp v = 1 / 2 ^ 43" using assms by (intro ulp_512_1024) simp_all
    have wk: "w = of_int (roundTiesToEven (v / ulp v)) / 2 ^ 43"
      using v0 by (simp add: w_def roundToDouble_def u)
    have "\<bar>w\<bar> < 2 ^ 10" using w by simp
    then have "roundToDouble w = w"
      by (rule roundToDouble_exact[OF wk, of 10]) simp
    then show ?thesis by (simp add: w_def)
  qed
qed

lemma roundToDouble_360: "roundToDouble 360 = 360"
  by (rule roundToDouble_exact[of 360 360 0 9]) simp_all

lemma remainder_360_360: "remainder 360 360 = 0"
  by (simp add: remainder_def trunc_def)

lemma normalizeAngle64_0: "normalizeAngle64 0 = 0"
proof -
  have "remainder 0 360 = 0" by (simp add: remainder_def trunc_def)
  then show ?thesis
    by (simp add: normalizeAngle64_def roundToDouble_360 remainder_360_360)
qed

text \<open>
  What \<open>normalizeAngle64\<close> does to an angle \<open>y\<close> in \<open>[0, 360)\<close>, in terms of the rounded
  sum \<open>y + 360\<close>.
\<close>

lemma normalizeAngle64_low:
  assumes "0 \<le> y" "y < 360"
  shows "normalizeAngle64 y = remainder (roundToDouble (y + 360)) 360"
proof -
  have "remainder y 360 = y" by (rule remainder_360_small) (use assms in simp)
  then show ?thesis by (simp add: normalizeAngle64_def)
qed

lemma normalizeAngle64_after_round:
  assumes "360 \<le> w" "w \<le> 720" "roundToDouble w = w"
  shows "normalizeAngle64 (remainder w 360) = remainder w 360"
proof (cases "w = 720")
  case True
  then show ?thesis by (simp add: remainder_720 normalizeAngle64_0)
next
  case False
  then have w: "360 \<le> w" "w < 720" using assms by simp_all
  have r: "remainder w 360 = w - 360" by (rule remainder_360_wrap[OF w])
  have "normalizeAngle64 (w - 360) = remainder (roundToDouble (w - 360 + 360)) 360"
    by (rule normalizeAngle64_low) (use w in simp_all)
  then show ?thesis by (simp add: r assms(3))
qed

lemma normalizeAngle64_idem_nonneg:
  assumes "0 \<le> x"
  shows "normalizeAngle64 (normalizeAngle64 x) = normalizeAngle64 x"
proof -
  define v where "v = remainder x 360 + 360"
  have v: "360 \<le> v" "v < 720"
    using remainder_360_nonneg[OF assms] by (simp_all add: v_def)
  have "normalizeAngle64 x = remainder (roundToDouble v) 360"
    by (simp add: normalizeAngle64_def v_def)
  moreover have "normalizeAngle64 (remainder (roundToDouble v) 360) =
      remainder (roundToDouble v) 360"
    by (rule normalizeAngle64_after_round)
      (rule roundToDouble_mid_bounds[OF v] roundToDouble_idem_mid[OF v])+
  ultimately show ?thesis by simp
qed

lemma normalizeAngle64_high:
  assumes "360 \<le> w" "w \<le> 720" "roundToDouble w = w"
  shows "normalizeAngle64 w = remainder w 360"
proof (cases "w = 720")
  case True
  then show ?thesis
    by (simp add: normalizeAngle64_def remainder_720 roundToDouble_360 remainder_360_360)
next
  case False
  then have "remainder w 360 = w - 360"
    using assms by (intro remainder_360_wrap) simp_all
  then show ?thesis by (simp add: normalizeAngle64_def assms(3))
qed

lemma normalizeAngle64_period_low:
  assumes "0 \<le> x" "x < 360"
  shows "normalizeAngle64 (roundToDouble (x + 360)) = normalizeAngle64 x"
proof -
  have v: "360 \<le> x + 360" "x + 360 < 720" using assms by simp_all
  have "normalizeAngle64 (roundToDouble (x + 360)) = remainder (roundToDouble (x + 360)) 360"
    by (rule normalizeAngle64_high)
      (rule roundToDouble_mid_bounds[OF v] roundToDouble_idem_mid[OF v])+
  then show ?thesis by (simp add: normalizeAngle64_low[OF assms])
qed

text \<open>On a multiple of \<open>1 / 2 ^ 43\<close> no addition rounds.\<close>

lemma normalizeAngle64_grid:
  "normalizeAngle64 (of_int k / 2 ^ 43) = normalizeAngle (of_int k / 2 ^ 43)"
proof -
  define x :: real where "x = of_int k / 2 ^ 43"
  define v where "v = remainder x 360 + 360"
  have "v = of_int (k - 360 * 2 ^ 43 * trunc (x / 360) + 360 * 2 ^ 43) / 2 ^ 43"
    by (simp add: v_def remainder_def x_def field_simps)
  moreover have "\<bar>v\<bar> < 2 ^ 10"
    using remainder_360_range[of x] by (simp add: v_def abs_less_iff)
  ultimately have "roundToDouble v = v"
    by (rule roundToDouble_exact) simp
  then show ?thesis
    by (simp add: normalizeAngle64_def normalizeAngle_def v_def x_def)
qed

lemma normalizeAngle_grid:
  "\<exists>k'. normalizeAngle (of_int k / 2 ^ 43) = of_int k' / 2 ^ 43"
proof -
  have "normalizeAngle (of_int k / 2 ^ 43) =
      of_int (k - 360 * 2 ^ 43 * \<lfloor>real_of_int k / 2 ^ 43 / 360\<rfloor>) / 2 ^ 43"
    by (simp add: normalizeAngle_floor field_simps)
  then show ?thesis ..
qed

lemma normalizeAngle64_idem_grid:
  "normalizeAngle64 (normalizeAngle64 (of_int k / 2 ^ 43)) =
   normalizeAngle64 (of_int k / 2 ^ 43)"
proof -
  obtain k' where k': "normalizeAngle (of_int k / 2 ^ 43) = of_int k' / 2 ^ 43"
    using normalizeAngle_grid by blast
  have "normalizeAngle64 (normalizeAngle64 (of_int k / 2 ^ 43)) =
      normalizeAngle (normalizeAngle (of_int k / 2 ^ 43))"
    by (simp only: normalizeAngle64_grid k')
  also have "\<dots> = normalizeAngle (of_int k / 2 ^ 43)"
    by (rule normalizeAngle_fixed) (rule normalizeAngle_bounds)+
  finally show ?thesis by (simp only: normalizeAngle64_grid)
qed

lemma normalizeAngle64_period_grid:
  assumes "\<bar>real_of_int k / 2 ^ 43\<bar> \<le> 360"
  shows "normalizeAngle64 (roundToDouble (of_int k / 2 ^ 43 + 360)) =
         normalizeAngle64 (of_int k / 2 ^ 43)"
proof -
  have g: "real_of_int k / 2 ^ 43 + 360 = of_int (k + 360 * 2 ^ 43) / 2 ^ 43"
    by (simp add: field_simps)
  have "\<bar>real_of_int k / 2 ^ 43 + 360\<bar> < 2 ^ 10" using assms by (simp add: abs_less_iff)
  with g have "roundToDouble (real_of_int k / 2 ^ 43 + 360) = of_int (k + 360 * 2 ^ 43) / 2 ^ 43"
    using roundToDouble_exact[of "real_of_int k / 2 ^ 43 + 360" "k + 360 * 2 ^ 43" 43 10]
    by simp
  then have "normalizeAngle64 (roundToDouble (of_int k / 2 ^ 43 + 360)) =
      normalizeAngle (real_of_int k / 2 ^ 43 + 360)"
    by (simp only: normalizeAngle64_grid g)
  also have "\<dots> = normalizeAngle (real_of_int k / 2 ^ 43)"
    using normalizeAngle_shift[of "real_of_int k / 2 ^ 43" 1] by simp
  finally show ?thesis by (simp only: normalizeAngle64_grid)
qed

text \<open>
  Claim C8, as the code has it, in doubles. For every \<open>x\<close> the relative form of the
  normalized angle lies in \<open>[-180, 180]\<close>. \<open>normalizeAngle\<close> is idempotent on every
  \<open>x \<ge> 0\<close> and on every multiple of \<open>1 / 2 ^ 43\<close> (every integer among them), and
  \<open>normalizeAngle (x + 360) = normalizeAngle x\<close> for every \<open>x\<close> in \<open>[0, 360)\<close> and every
  multiple of \<open>1 / 2 ^ 43\<close> of size at most 360.
\<close>
theorem normalization_algebra:
  "- 180 \<le> normalizeRelativeDirection64 (normalizeAngle64 x) \<and>
   normalizeRelativeDirection64 (normalizeAngle64 x) \<le> 180 \<and>
   (0 \<le> x \<longrightarrow> normalizeAngle64 (normalizeAngle64 x) = normalizeAngle64 x) \<and>
   (0 \<le> x \<and> x < 360 \<longrightarrow>
      normalizeAngle64 (roundToDouble (x + 360)) = normalizeAngle64 x) \<and>
   normalizeAngle64 (normalizeAngle64 (of_int k / 2 ^ 43)) =
     normalizeAngle64 (of_int k / 2 ^ 43) \<and>
   (\<bar>real_of_int k / 2 ^ 43\<bar> \<le> 360 \<longrightarrow>
      normalizeAngle64 (roundToDouble (of_int k / 2 ^ 43 + 360)) =
      normalizeAngle64 (of_int k / 2 ^ 43))"
  using relative_of_normalized64[of x] normalizeAngle64_idem_nonneg[of x]
    normalizeAngle64_period_low[of x] normalizeAngle64_idem_grid[of k]
    normalizeAngle64_period_grid[of k]
  by blast

lemma normalizeAngle64_of_int: "normalizeAngle64 (of_int n) = of_int (n mod 360)"
proof -
  have g: "real_of_int n = of_int (n * 2 ^ 43) / 2 ^ 43" by simp
  have "normalizeAngle64 (of_int n) = normalizeAngle (of_int n)"
    by (simp only: g normalizeAngle64_grid)
  then show ?thesis by (simp only: normalizeAngle_of_int)
qed

text \<open>At 45, and at the multiple \<open>- 45\<close> of \<open>1 / 2 ^ 43\<close>.\<close>
theorem normalization_algebra_witness:
  "(0::real) \<le> 45 \<and> (45::real) < 360 \<and>
   normalizeAngle64 45 = 45 \<and>
   normalizeAngle64 (normalizeAngle64 45) = 45 \<and>
   roundToDouble (45 + 360) = 405 \<and>
   normalizeAngle64 (roundToDouble (45 + 360)) = 45 \<and>
   real_of_int (- 45 * 2 ^ 43) / 2 ^ 43 = - 45 \<and>
   normalizeAngle64 (- 45) = 315 \<and>
   normalizeAngle64 (normalizeAngle64 (- 45)) = 315 \<and>
   roundToDouble (- 45 + 360) = 315 \<and>
   normalizeAngle64 (roundToDouble (- 45 + 360)) = 315"
proof -
  have a: "normalizeAngle64 45 = 45" using normalizeAngle64_of_int[of 45] by simp
  have b: "normalizeAngle64 (- 45) = 315" using normalizeAngle64_of_int[of "- 45"] by simp
  have c: "normalizeAngle64 315 = 315" using normalizeAngle64_of_int[of 315] by simp
  have d: "roundToDouble 405 = 405"
    by (rule roundToDouble_exact[of 405 405 0 9]) simp_all
  have e: "roundToDouble 315 = 315"
    by (rule roundToDouble_exact[of 315 315 0 9]) simp_all
  show ?thesis
    using normalization_algebra[of 45 "- 45 * 2 ^ 43"]
    by (simp add: a b c d e)
qed

section \<open>The window in doubles\<close>










end
